theory Spec2Isabelle
  imports Complex_Main "HOL-Library.Multiset"
begin

section \<open>Attenuation objects (\<^verbatim>\<open>attenuation_object.py\<close>)\<close>

text \<open>
  Every exception the modelled code can raise is a value of \<open>py_error\<close>, and a
  function that can raise returns \<open>py_error + 'a\<close>.
\<close>

datatype py_error =
  ZeroDivisionError | ValueError | IndexError | NameError | AttributeError | OverflowError

subsection \<open>Floating-point numbers\<close>

text \<open>
  The numbers handed to the program are finite Python floats, read as the real numbers
  they denote. The result of a float operation is a \<open>pyfloat\<close>: a finite value, an
  infinity or NaN. \<open>round64\<close> is rounding to the nearest binary64 number, ties to
  the even significand: 53 bits of precision, subnormal numbers spaced \<open>2 powi -1074\<close>
  apart, and overflow to an infinity when the rounded value exceeds the largest double.

  Rounding is modelled where it decides which value comes back: in the sum of a
  collection, in the distance test of a circle, and in the column index of a lookup.
  The step sizes of the constructor, the grid coordinates, the accumulation into
  \<open>data\<close> and the coordinate transform of the line integral are computed on the
  reals.
\<close>

datatype pyfloat = Fin real | PInf | NInf | NaN

definition round_half_even :: "real \<Rightarrow> int" where
  "round_half_even x =
     (let n = \<lfloor>x\<rfloor>
      in if x - of_int n < 1 / 2 then n
         else if 1 / 2 < x - of_int n then n + 1
         else if even n then n else n + 1)"

definition quantum_exp :: "real \<Rightarrow> int" where
  "quantum_exp x = max (\<lfloor>log 2 \<bar>x\<bar>\<rfloor> - 52) (- 1074)"

definition fl_real :: "real \<Rightarrow> real" where
  "fl_real x =
     (if x = 0 then 0
      else of_int (round_half_even (x / 2 powi quantum_exp x)) * 2 powi quantum_exp x)"

definition max_double :: real where
  "max_double = (2 ^ 53 - 1) * 2 ^ 971"

definition round64 :: "real \<Rightarrow> pyfloat" where
  "round64 x =
     (let y = fl_real x
      in if max_double < y then PInf else if y < - max_double then NInf else Fin y)"

text \<open>\<open>a + b\<close> on floats: never raises; opposite infinities give NaN.\<close>

fun float_add :: "pyfloat \<Rightarrow> pyfloat \<Rightarrow> pyfloat" where
  "float_add (Fin a) (Fin b) = round64 (a + b)"
| "float_add NaN b = NaN"
| "float_add a NaN = NaN"
| "float_add PInf NInf = NaN"
| "float_add NInf PInf = NaN"
| "float_add PInf b = PInf"
| "float_add a PInf = PInf"
| "float_add NInf b = NInf"
| "float_add a NInf = NInf"

text \<open>\<open>a - b\<close> on two finite floats.\<close>

definition float_sub :: "real \<Rightarrow> real \<Rightarrow> pyfloat" where
  "float_sub a b = round64 (a - b)"

text \<open>
  \<open>a ** 2\<close>: Python raises \<open>OverflowError\<close> when the power of a finite float
  is out of range, and gives an infinity for an infinite base.
\<close>

fun float_pow2 :: "pyfloat \<Rightarrow> py_error + pyfloat" where
  "float_pow2 (Fin a) =
     (case round64 (a * a) of Fin p \<Rightarrow> Inr (Fin p) | _ \<Rightarrow> Inl OverflowError)"
| "float_pow2 PInf = Inr PInf"
| "float_pow2 NInf = Inr PInf"
| "float_pow2 NaN = Inr NaN"

text \<open>\<open>np.sqrt\<close> on a float: correctly rounded, NaN for a negative argument.\<close>

fun np_sqrt :: "pyfloat \<Rightarrow> pyfloat" where
  "np_sqrt (Fin a) = (if a < 0 then NaN else round64 (sqrt a))"
| "np_sqrt PInf = PInf"
| "np_sqrt NInf = NaN"
| "np_sqrt NaN = NaN"

text \<open>
  Comparisons of a float with a finite number (a float or an integer); every comparison
  with NaN is false.
\<close>

fun float_le :: "pyfloat \<Rightarrow> real \<Rightarrow> bool" where
  "float_le (Fin a) b \<longleftrightarrow> a \<le> b"
| "float_le NInf b \<longleftrightarrow> True"
| "float_le PInf b \<longleftrightarrow> False"
| "float_le NaN b \<longleftrightarrow> False"





subsection \<open>The classes\<close>

text \<open>
  The abstract class \<open>AttenuationObject\<close> and its subclasses \<open>Rectangle\<close>,
  \<open>Circle\<close> and \<open>ObjectCollection\<close>. The constructors of the datatype hold the
  fields as the objects store them; the functions \<open>Rectangle_init\<close> and
  \<open>Circle_init\<close> are the \<open>__init__\<close> methods, which normalise their arguments.
  The \<open>isinstance\<close> check of \<open>append\<close> is the typing of the list of members.
  \<open>ImageObject\<close> reads pixels through an image library and is not modelled.
\<close>

datatype AttenuationObject =
    Rectangle real real real real real
  | Circle real real real real
  | ObjectCollection "AttenuationObject list"

definition Rectangle_init :: "real \<Rightarrow> real \<Rightarrow> real \<Rightarrow> real \<Rightarrow> real \<Rightarrow> AttenuationObject" where
  "Rectangle_init x1 x2 y1 y2 attenuation_factor =
     Rectangle (min x1 x2) (max x1 x2) (min y1 y2) (max y1 y2) attenuation_factor"


definition ObjectCollection_init :: AttenuationObject where
  "ObjectCollection_init = ObjectCollection []"

text \<open>Only the collection class has the method \<open>append\<close>.\<close>

fun append :: "AttenuationObject \<Rightarrow> AttenuationObject \<Rightarrow> py_error + AttenuationObject" where
  "append (ObjectCollection objects) obj = Inr (ObjectCollection (objects @ [obj]))"
| "append self obj = Inl AttributeError"

text \<open>
  The loop of the collection,
  \<open>attenuation = 0; for obj in self.objects: attenuation += obj.attenuation(x, y)\<close>:
  the float additions are made from left to right, and the first member that raises
  ends the loop.
\<close>

primrec sum_from :: "pyfloat \<Rightarrow> (py_error + pyfloat) list \<Rightarrow> py_error + pyfloat" where
  "sum_from acc [] = Inr acc"
| "sum_from acc (v # vs) =
     (case v of Inl e \<Rightarrow> Inl e | Inr d \<Rightarrow> sum_from (float_add acc d) vs)"

text \<open>
  \<open>attenuation\<close>: the method of each subclass. The rectangle compares and does no
  arithmetic. The circle computes
  \<open>np.sqrt((x - self.x0)**2 + (y - self.y0)**2) <= self.r\<close> in floats, the first
  square first.
\<close>

fun attenuation :: "AttenuationObject \<Rightarrow> real \<Rightarrow> real \<Rightarrow> py_error + pyfloat" where
  "attenuation (Rectangle x1 x2 y1 y2 attenuation_factor) x y =
     Inr (Fin (if x1 \<le> x \<and> x \<le> x2 \<and> y1 \<le> y \<and> y \<le> y2 then attenuation_factor else 0))"
| "attenuation (Circle x0 y0 r attenuation_factor) x y =
     (case float_pow2 (float_sub x x0) of
        Inl e \<Rightarrow> Inl e
      | Inr dx2 \<Rightarrow>
          (case float_pow2 (float_sub y y0) of
             Inl e \<Rightarrow> Inl e
           | Inr dy2 \<Rightarrow>
               Inr (Fin (if float_le (np_sqrt (float_add dx2 dy2)) r
                         then attenuation_factor else 0))))"
| "attenuation (ObjectCollection objects) x y =
     sum_from (Fin 0) (map (\<lambda>obj. attenuation obj x y) objects)"

text \<open>
  \<open>scipy.integrate.quad\<close> is a library routine, not code of this program: it is a
  parameter \<open>quad\<close> of everything that integrates, giving the first component of the
  pair that the library returns.
\<close>

type_synonym quadrature = "(real \<Rightarrow> real) \<Rightarrow> real \<Rightarrow> real \<Rightarrow> real"

text \<open>
  \<open>project_attenuation\<close> is a method of the abstract class and uses nothing of the
  object but its \<open>attenuation\<close> method, here the argument \<open>att\<close>: the density
  as a function on the reals, for an object whose \<open>attenuation\<close> returns finite
  values along the line.
\<close>

definition integrand_eta :: "(real \<Rightarrow> real \<Rightarrow> real) \<Rightarrow> real \<Rightarrow> real \<Rightarrow> real \<Rightarrow> real" where
  "integrand_eta att theta xi eta =
     att (xi * cos theta + eta * sin theta) (eta * cos theta - xi * sin theta)"

definition project_attenuation ::
  "quadrature \<Rightarrow> (real \<Rightarrow> real \<Rightarrow> real) \<Rightarrow> real \<Rightarrow> real \<Rightarrow> real \<times> real \<Rightarrow> real" where
  "project_attenuation quad att theta xi eta_range =
     quad (integrand_eta att theta xi) (fst eta_range) (snd eta_range)"

text \<open>
  A one-point rule, used only to evaluate closed examples. On an integrand that is
  constant on the interval every interpolatory rule, the library's included, gives the
  constant times \<open>b - a\<close>, negative when the bounds are reversed.
\<close>

definition midpoint_rule :: quadrature where
  "midpoint_rule f a b = (b - a) * f ((a + b) / 2)"

section \<open>The projection grid (\<^verbatim>\<open>projection.py\<close>)\<close>

record Projection =
  theta_min :: real
  theta_max :: real
  theta_steps :: int
  theta_step_size :: real
  xi_min :: real
  xi_max :: real
  xi_steps :: int
  xi_step_size :: real
  data :: "real list list"

text \<open>
  A two-dimensional array is the list of its rows. \<open>np.zeros((m, n))\<close> raises
  \<open>ValueError\<close> on a negative dimension. An index \<open>i\<close> on an axis of length
  \<open>n\<close> is valid from \<open>-n\<close> to \<open>n - 1\<close>, the negative ones counting from the
  end, and raises \<open>IndexError\<close> otherwise.
\<close>

definition np_zeros :: "int \<Rightarrow> int \<Rightarrow> py_error + real list list" where
  "np_zeros m n =
     (if m < 0 \<or> n < 0 then Inl ValueError
      else Inr (replicate (nat m) (replicate (nat n) 0)))"

definition np_axis :: "nat \<Rightarrow> int \<Rightarrow> py_error + nat" where
  "np_axis n i =
     (if 0 \<le> i \<and> i < int n then Inr (nat i)
      else if - int n \<le> i \<and> i < 0 then Inr (nat (int n + i))
      else Inl IndexError)"


text \<open>\<open>d[i, j] += v\<close>, returning the updated array.\<close>

definition np_iadd :: "real list list \<Rightarrow> int \<Rightarrow> int \<Rightarrow> real \<Rightarrow> py_error + real list list" where
  "np_iadd d i j v =
     (case np_axis (length d) i of
        Inl e \<Rightarrow> Inl e
      | Inr r \<Rightarrow>
          (case np_axis (length (d ! r)) j of
             Inl e \<Rightarrow> Inl e
           | Inr c \<Rightarrow> Inr (d[r := (d ! r)[c := d ! r ! c + v]])))"

text \<open>
  \<open>__init__\<close>: a range is the pair \<open>(theta_min, theta_max)\<close> of the docstring, in
  either order. Each division raises \<open>ZeroDivisionError\<close> on a zero step count,
  before the array is allocated.
\<close>

definition Projection_init ::
  "real \<times> real \<Rightarrow> int \<Rightarrow> real \<times> real \<Rightarrow> int \<Rightarrow> py_error + Projection" where
  "Projection_init theta_range theta_steps' xi_range xi_steps' =
     (let theta_min' = min (fst theta_range) (snd theta_range);
          theta_max' = max (fst theta_range) (snd theta_range)
      in if theta_steps' = 0 then Inl ZeroDivisionError
         else
           let theta_step_size' = (theta_max' - theta_min') / real_of_int theta_steps';
               xi_min' = min (fst xi_range) (snd xi_range);
               xi_max' = max (fst xi_range) (snd xi_range)
           in if xi_steps' = 0 then Inl ZeroDivisionError
              else
                let xi_step_size' = (xi_max' - xi_min') / real_of_int xi_steps'
                in case np_zeros theta_steps' xi_steps' of
                     Inl e \<Rightarrow> Inl e
                   | Inr zeros \<Rightarrow>
                       Inr \<lparr>theta_min = theta_min', theta_max = theta_max',
                            theta_steps = theta_steps', theta_step_size = theta_step_size',
                            xi_min = xi_min', xi_max = xi_max',
                            xi_steps = xi_steps', xi_step_size = xi_step_size',
                            data = zeros\<rparr>)"

definition theta :: "Projection \<Rightarrow> int \<Rightarrow> real" where
  "theta self idx = theta_min self + real_of_int idx * theta_step_size self"

definition xi :: "Projection \<Rightarrow> int \<Rightarrow> real" where
  "xi self idx = xi_min self + real_of_int idx * xi_step_size self"




text \<open>
  A \<open>for\<close> loop over a list of indices threads the state through its body and stops
  at the first exception. \<open>range(n)\<close> is empty for \<open>n \<le> 0\<close>.
\<close>

primrec for_each :: "'i list \<Rightarrow> ('i \<Rightarrow> 's \<Rightarrow> py_error + 's) \<Rightarrow> 's \<Rightarrow> py_error + 's" where
  "for_each [] body s = Inr s"
| "for_each (i # is) body s =
     (case body i s of Inl e \<Rightarrow> Inl e | Inr s' \<Rightarrow> for_each is body s')"

definition py_range :: "int \<Rightarrow> int list" where
  "py_range n = map int [0..<nat n]"

text \<open>
  \<open>add_object\<close>: the object is given by its \<open>attenuation\<close> method, which is all
  that \<open>project_attenuation\<close> uses. The updated grid is returned.
\<close>

definition add_cell ::
  "quadrature \<Rightarrow> (real \<Rightarrow> real \<Rightarrow> real) \<Rightarrow> real \<times> real \<Rightarrow> int \<Rightarrow> int \<Rightarrow> Projection
     \<Rightarrow> py_error + Projection" where
  "add_cell quad obj eta_range theta_idx xi_idx self =
     (case np_iadd (data self) theta_idx xi_idx
             (project_attenuation quad obj (theta self theta_idx) (xi self xi_idx) eta_range) of
        Inl e \<Rightarrow> Inl e
      | Inr d \<Rightarrow> Inr (self\<lparr>data := d\<rparr>))"

definition add_object ::
  "quadrature \<Rightarrow> (real \<Rightarrow> real \<Rightarrow> real) \<Rightarrow> real \<times> real \<Rightarrow> Projection \<Rightarrow> py_error + Projection" where
  "add_object quad obj eta_range self =
     for_each (py_range (theta_steps self))
       (\<lambda>theta_idx s.
          for_each (py_range (xi_steps s)) (add_cell quad obj eta_range theta_idx) s)
       self"

text \<open>
  \<open>back_project\<close>. The two \<open>for\<close> lines lack their colons and the call passes a
  positional argument after a keyword argument, so the file as it stands is rejected
  with a syntax error when it is loaded. The model is the body read with the loop
  headers completed: the matrix is allocated, the loop body raises \<open>NameError\<close> the
  first time it runs, since neither \<open>project_attenuation\<close> nor \<open>theta\<close> is a name
  in scope, and the function ends without a \<open>return\<close>, which gives \<open>None\<close>.
\<close>

definition back_project :: "Projection \<Rightarrow> py_error + real list list option" where
  "back_project self =
     (case np_zeros (xi_steps self) (xi_steps self) of
        Inl e \<Rightarrow> Inl e
      | Inr matrix \<Rightarrow>
          (case for_each (py_range (xi_steps self))
                  (\<lambda>x m. for_each (py_range (xi_steps self)) (\<lambda>y m'. Inl NameError) m)
                  matrix of
             Inl e \<Rightarrow> Inl e
           | Inr m \<Rightarrow> Inr None))"

text \<open>
  What holds of every grid the constructor returns, and is kept by \<open>add_object\<close>.
\<close>

definition has_shape :: "real list list \<Rightarrow> int \<Rightarrow> int \<Rightarrow> bool" where
  "has_shape d m n \<longleftrightarrow> length d = nat m \<and> list_all (\<lambda>row. length row = nat n) d"

definition grid_inv :: "Projection \<Rightarrow> bool" where
  "grid_inv self \<longleftrightarrow>
     0 < theta_steps self \<and> 0 < xi_steps self \<and>
     theta_min self \<le> theta_max self \<and> xi_min self \<le> xi_max self \<and>
     theta_step_size self = (theta_max self - theta_min self) / real_of_int (theta_steps self) \<and>
     xi_step_size self = (xi_max self - xi_min self) / real_of_int (xi_steps self) \<and>
     has_shape (data self) (theta_steps self) (xi_steps self)"


text \<open>The frame of \<open>add_object\<close>: every field but the entries of \<open>data\<close> is kept.\<close>

definition only_data_changed :: "Projection \<Rightarrow> Projection \<Rightarrow> bool" where
  "only_data_changed s s' \<longleftrightarrow>
     theta_min s' = theta_min s \<and> theta_max s' = theta_max s \<and>
     theta_steps s' = theta_steps s \<and> theta_step_size s' = theta_step_size s \<and>
     xi_min s' = xi_min s \<and> xi_max s' = xi_max s \<and>
     xi_steps s' = xi_steps s \<and> xi_step_size s' = xi_step_size s \<and>
     length (data s') = length (data s) \<and>
     map length (data s') = map length (data s)"

text \<open>
  A grid of one cell, and the density of \<open>Rectangle(-3, 3, -3, 3, 1)\<close> as a function
  on the reals, for the closed examples.
\<close>

definition example_grid :: Projection where
  "example_grid =
     \<lparr>theta_min = 0, theta_max = 1, theta_steps = 1, theta_step_size = 1,
      xi_min = 0, xi_max = 2, xi_steps = 1, xi_step_size = 2, data = [[0]]\<rparr>"

definition example_box :: "real \<Rightarrow> real \<Rightarrow> real" where
  "example_box x y = (if - 3 \<le> x \<and> x \<le> 3 \<and> - 3 \<le> y \<and> y \<le> 3 then 1 else 0)"





section \<open>Properties of the float arithmetic\<close>

subsection \<open>Rounding to the nearest even integer\<close>

lemma round_half_even_of_int [simp]: "round_half_even (of_int z) = z"
  by (simp add: round_half_even_def)


lemma round_half_even_upper: "of_int (round_half_even x) \<le> x + 1 / 2"
  unfolding round_half_even_def Let_def by (auto; linarith)

lemma round_half_even_mono:
  assumes "x \<le> y"
  shows "round_half_even x \<le> round_half_even y"
proof -
  have fl: "\<lfloor>x\<rfloor> \<le> \<lfloor>y\<rfloor>" using assms by (rule floor_mono)
  show ?thesis
  proof (cases "\<lfloor>x\<rfloor> = \<lfloor>y\<rfloor>")
    case True
    then show ?thesis
      using assms unfolding round_half_even_def Let_def by auto
  next
    case False
    then have "\<lfloor>x\<rfloor> + 1 \<le> \<lfloor>y\<rfloor>" using fl by simp
    moreover have "round_half_even x \<le> \<lfloor>x\<rfloor> + 1"
      unfolding round_half_even_def Let_def by auto
    moreover have "\<lfloor>y\<rfloor> \<le> round_half_even y"
      unfolding round_half_even_def Let_def by auto
    ultimately show ?thesis by linarith
  qed
qed



lemma fl_real_zero [simp]: "fl_real 0 = 0"
  by (simp add: fl_real_def)



lemma two_powr_int: "(2::real) powr real_of_int k = 2 powi k"
  by (rule powr_real_of_int') simp_all

lemma floor_log2_binade:
  assumes "2 powi k \<le> x" "x < 2 powi (k + 1)"
  shows "\<lfloor>log 2 x\<rfloor> = k"
proof -
  have pos: "0 < x" using assms(1) by (smt (verit) zero_less_power_int)
  have "2 powr real_of_int k \<le> x" "x < 2 powr (real_of_int k + 1)"
    using assms two_powr_int [of k] two_powr_int [of "k + 1"] by simp_all
  then show ?thesis
    using pos by (simp add: floor_log_eq_powr_iff)
qed

lemma binade_of_pos:
  assumes "0 < x"
  shows "2 powi \<lfloor>log 2 x\<rfloor> \<le> x \<and> x < 2 powi (\<lfloor>log 2 x\<rfloor> + 1)"
proof -
  have "2 powr real_of_int \<lfloor>log 2 x\<rfloor> \<le> x \<and> x < 2 powr (real_of_int \<lfloor>log 2 x\<rfloor> + 1)"
    using floor_log_eq_powr_iff [of x 2 "\<lfloor>log 2 x\<rfloor>"] assms by simp
  then show ?thesis
    using two_powr_int [of "\<lfloor>log 2 x\<rfloor>"] two_powr_int [of "\<lfloor>log 2 x\<rfloor> + 1"] by simp
qed

lemma two_powi_le_iff: "(2::real) powi a \<le> 2 powi b \<longleftrightarrow> a \<le> b"
proof
  assume "(2::real) powi a \<le> 2 powi b"
  then show "a \<le> b"
    using power_int_strict_increasing [of b a "2::real"] by (cases "a \<le> b") auto
next
  assume "a \<le> b"
  then show "(2::real) powi a \<le> 2 powi b"
    by (intro power_int_increasing) simp_all
qed


lemma two_powi_split: "(2::real) powi (a + b) = 2 powi a * 2 powi b"
  by (rule power_int_add) simp

lemma two_powi_quot: "(2::real) powi a / 2 powi b = 2 powi (a - b)"
  by (rule power_int_diff [symmetric]) simp

lemma two_powi_nat: "0 \<le> a \<Longrightarrow> (2::real) powi a = of_int (2 ^ nat a)"
  by (simp add: power_int_def)

lemma quantum_exp_binade:
  assumes "2 powi k \<le> \<bar>x\<bar>" "\<bar>x\<bar> < 2 powi (k + 1)"
  shows "quantum_exp x = max (k - 52) (- 1074)"
  using floor_log2_binade [OF assms] by (simp add: quantum_exp_def)

lemma fl_real_binade:
  assumes "2 powi k \<le> \<bar>x\<bar>" "\<bar>x\<bar> < 2 powi (k + 1)"
  shows "fl_real x = of_int (round_half_even (x / 2 powi (max (k - 52) (- 1074))))
                       * 2 powi (max (k - 52) (- 1074))"
proof -
  have "x \<noteq> 0" using assms(1) by (smt (verit) zero_less_power_int)
  then show ?thesis
    by (simp add: fl_real_def quantum_exp_binade [OF assms])
qed

lemma fl_real_exact:
  assumes m: "\<bar>m\<bar> \<le> 2 ^ 53" and e: "- 1074 \<le> e"
  shows "fl_real (of_int m * 2 powi e) = of_int m * 2 powi e"
proof (cases "m = 0")
  case True
  then show ?thesis by simp
next
  case False
  let ?x = "of_int m * (2::real) powi e"
  have ax: "\<bar>?x\<bar> = of_int \<bar>m\<bar> * 2 powi e"
    by (simp add: abs_mult)
  have pos: "0 < \<bar>?x\<bar>" using False by simp
  define L where "L = \<lfloor>log 2 \<bar>?x\<bar>\<rfloor>"
  define E where "E = max (L - 52) (- 1074)"
  have bin: "2 powi L \<le> \<bar>?x\<bar>" "\<bar>?x\<bar> < 2 powi (L + 1)"
    using binade_of_pos [OF pos] by (simp_all add: L_def)
  have "of_int \<bar>m\<bar> \<le> (2::real) ^ 53"
    using m by (metis of_int_le_iff of_int_numeral of_int_power)
  then have "\<bar>?x\<bar> \<le> 2 ^ 53 * 2 powi e"
    unfolding ax by (intro mult_right_mono) simp_all
  also have "\<dots> = 2 powi (53 + e)"
    by (simp add: two_powi_split)
  finally have up: "\<bar>?x\<bar> \<le> 2 powi (53 + e)" .
  have "2 powi L \<le> (2::real) powi (53 + e)"
    using bin(1) up by linarith
  then have L: "L \<le> 53 + e" by (simp add: two_powi_le_iff)
  have qe: "quantum_exp ?x = E"
    by (simp add: quantum_exp_def E_def L_def)
  have fl: "fl_real ?x = of_int (round_half_even (?x / 2 powi E)) * 2 powi E"
    using pos by (simp add: fl_real_def qe)
  show ?thesis
  proof (cases "E \<le> e")
    case True
    have "?x / 2 powi E = of_int m * 2 powi (e - E)"
      by (simp add: two_powi_quot [symmetric])
    also have "\<dots> = of_int (m * 2 ^ nat (e - E))"
      using True by (simp add: two_powi_nat)
    finally have "round_half_even (?x / 2 powi E) = m * 2 ^ nat (e - E)"
      by (simp only: round_half_even_of_int)
    then have "fl_real ?x = of_int m * (2 powi (e - E) * 2 powi E)"
      using True by (simp add: fl two_powi_nat)
    then show ?thesis
      by (simp add: two_powi_split [symmetric])
  next
    case F: False
    then have EL: "E = L - 52" and "e < L - 52"
      using e by (simp_all add: E_def max_def split: if_splits)
    then have Le: "L = 53 + e" using L by simp
    have "2 powi (53 + e) \<le> \<bar>?x\<bar>" using bin(1) Le by simp
    then have "(2::real) ^ 53 * 2 powi e \<le> of_int \<bar>m\<bar> * 2 powi e"
      by (simp add: two_powi_split ax)
    then have "(2::real) ^ 53 \<le> of_int \<bar>m\<bar>"
      by (simp add: mult_le_cancel_right)
    then have "2 ^ 53 \<le> \<bar>m\<bar>"
      by (metis of_int_le_iff of_int_numeral of_int_power)
    then have "\<bar>m\<bar> = 2 ^ 53" using m by simp
    then have "even m"
      by (metis even_abs_add_iff even_add even_numeral even_power zero_less_numeral)
    then obtain h where h: "m = 2 * h" by (auto elim: evenE)
    have Ee: "E = e + 1" using EL Le by simp
    have "?x / 2 powi E = of_int h"
      by (simp add: Ee h two_powi_split)
    then have "fl_real ?x = of_int h * 2 powi (e + 1)"
      by (simp add: fl Ee)
    then show ?thesis
      by (simp add: h two_powi_split)
  qed
qed





subsection \<open>Rounding to a float\<close>

lemma max_double_pos: "0 < max_double"
  by (simp add: max_double_def)

lemma round64_zero [simp]: "round64 0 = Fin 0"
  using max_double_pos by (simp add: round64_def)

lemma round64_not_NaN [simp]: "round64 x \<noteq> NaN"
  by (simp add: round64_def Let_def)

lemma round64_exact:
  assumes "\<bar>m\<bar> \<le> 2 ^ 53" "- 1074 \<le> e" "e \<le> 970"
  shows "round64 (of_int m * 2 powi e) = Fin (of_int m * 2 powi e)"
proof -
  let ?x = "of_int m * (2::real) powi e"
  have fl: "fl_real ?x = ?x" using assms(1,2) by (rule fl_real_exact)
  have "of_int \<bar>m\<bar> \<le> (2::real) ^ 53"
    using assms(1) by (metis of_int_le_iff of_int_numeral of_int_power)
  moreover have "(2::real) powi e \<le> 2 powi 970"
    using assms(3) by (simp only: two_powi_le_iff)
  ultimately have "of_int \<bar>m\<bar> * (2::real) powi e \<le> 2 ^ 53 * 2 powi 970"
    by (intro mult_mono) simp_all
  moreover have "(2::real) ^ 53 * 2 powi 970 \<le> max_double"
    by (simp add: max_double_def)
  ultimately have "\<bar>?x\<bar> \<le> max_double"
    by (simp add: abs_mult)
  then have "\<not> max_double < ?x" "\<not> ?x < - max_double"
    by linarith+
  then show ?thesis
    by (simp add: round64_def fl Let_def)
qed






lemma round64_binade:
  assumes lo: "2 powi k \<le> \<bar>x\<bar>" and hi: "\<bar>x\<bar> < 2 powi (k + 1)"
    and k: "- 1022 \<le> k" "k \<le> 1022"
  shows "round64 x = Fin (of_int (round_half_even (x / 2 powi (k - 52))) * 2 powi (k - 52))"
proof -
  let ?q = "(2::real) powi (k - 52)"
  let ?r = "round_half_even (x / ?q)"
  have fl: "fl_real x = of_int ?r * ?q"
    using fl_real_binade [OF lo hi] k by simp
  have top: "(2::real) powi (k + 1) / ?q = of_int (2 ^ 53)"
    by (simp add: two_powi_quot)
  have "x / ?q \<le> of_int (2 ^ 53)"
    using hi divide_right_mono [of x "2 powi (k + 1)" ?q] unfolding top [symmetric] by simp
  then have "?r \<le> round_half_even (of_int (2 ^ 53))"
    by (rule round_half_even_mono)
  then have up: "?r \<le> 2 ^ 53" by (simp only: round_half_even_of_int)
  have "of_int (- (2 ^ 53)) \<le> x / ?q"
    using hi divide_right_mono [of "- (2 powi (k + 1))" x ?q] top by simp
  then have "round_half_even (of_int (- (2 ^ 53))) \<le> ?r"
    by (rule round_half_even_mono)
  then have low: "- (2 ^ 53) \<le> ?r" by (simp only: round_half_even_of_int)
  have "\<bar>?r\<bar> \<le> 2 ^ 53" using up low by simp
  then have "round64 (of_int ?r * 2 powi (k - 52)) = Fin (of_int ?r * 2 powi (k - 52))"
    using k by (intro round64_exact) simp_all
  moreover have "fl_real (of_int ?r * ?q) = of_int ?r * ?q"
    using \<open>\<bar>?r\<bar> \<le> 2 ^ 53\<close> k by (intro fl_real_exact) simp_all
  ultimately show ?thesis
    using fl by (simp add: round64_def Let_def split: if_splits)
qed




section \<open>Properties of the attenuation objects\<close>






lemma sum_from_exact:
  assumes "- 1074 \<le> e" "e \<le> 970" "\<bar>a\<bar> + (\<Sum>m\<leftarrow>ms. \<bar>k m\<bar>) \<le> 2 ^ 53"
  shows "sum_from (Fin (of_int a * 2 powi e)) (map (\<lambda>m. Inr (Fin (of_int (k m) * 2 powi e))) ms)
     = Inr (Fin (of_int (a + (\<Sum>m\<leftarrow>ms. k m)) * 2 powi e))"
  using assms(3)
proof (induction ms arbitrary: a)
  case Nil
  then show ?case by simp
next
  case (Cons m ms)
  have rest: "0 \<le> (\<Sum>m\<leftarrow>ms. \<bar>k m\<bar>)"
    by (rule sum_list_nonneg) auto
  have "\<bar>a + k m\<bar> \<le> 2 ^ 53" using Cons.prems rest by simp
  then have r: "round64 (of_int (a + k m) * 2 powi e) = Fin (of_int (a + k m) * 2 powi e)"
    using assms(1,2) by (intro round64_exact)
  have eq: "of_int a * 2 powi e + of_int (k m) * 2 powi e = of_int (a + k m) * (2::real) powi e"
    by (simp add: algebra_simps)
  have step: "float_add (Fin (of_int a * 2 powi e)) (Fin (of_int (k m) * 2 powi e))
      = Fin (of_int (a + k m) * 2 powi e)"
    by (simp only: float_add.simps eq r)
  have "\<bar>a + k m\<bar> + (\<Sum>m\<leftarrow>ms. \<bar>k m\<bar>) \<le> 2 ^ 53" using Cons.prems by simp
  from Cons.IH [OF this]
  have ih: "sum_from (Fin (of_int (a + k m) * 2 powi e))
        (map (\<lambda>m. Inr (Fin (of_int (k m) * 2 powi e))) ms)
      = Inr (Fin (of_int (a + k m + (\<Sum>m\<leftarrow>ms. k m)) * 2 powi e))" .
  have "sum_from (Fin (of_int a * 2 powi e))
        (map (\<lambda>m. Inr (Fin (of_int (k m) * 2 powi e))) (m # ms))
      = sum_from (float_add (Fin (of_int a * 2 powi e)) (Fin (of_int (k m) * 2 powi e)))
          (map (\<lambda>m. Inr (Fin (of_int (k m) * 2 powi e))) ms)"
    by (simp del: float_add.simps)
  also have "\<dots> = Inr (Fin (of_int (a + k m + (\<Sum>m\<leftarrow>ms. k m)) * 2 powi e))"
    by (simp only: step ih)
  also have "a + k m + (\<Sum>m\<leftarrow>ms. k m) = a + (\<Sum>m\<leftarrow>m # ms. k m)"
    by simp
  finally show ?case .
qed

lemma collection_exact:
  assumes vals: "\<forall>m\<in>set ms. attenuation m x y = Inr (Fin (of_int (k m) * 2 powi e))"
    and e: "- 1074 \<le> e" "e \<le> 970" and small: "(\<Sum>m\<leftarrow>ms. \<bar>k m\<bar>) \<le> 2 ^ 53"
  shows "attenuation (ObjectCollection ms) x y = Inr (Fin (of_int (\<Sum>m\<leftarrow>ms. k m) * 2 powi e))"
proof -
  have m: "map (\<lambda>m. attenuation m x y) ms = map (\<lambda>m. Inr (Fin (of_int (k m) * 2 powi e))) ms"
    using vals by simp
  have z: "Fin 0 = Fin (of_int 0 * 2 powi e)" by simp
  have "\<bar>0\<bar> + (\<Sum>m\<leftarrow>ms. \<bar>k m\<bar>) \<le> 2 ^ 53" using small by simp
  from sum_from_exact [OF e this]
  have "sum_from (Fin 0) (map (\<lambda>m. Inr (Fin (of_int (k m) * 2 powi e))) ms)
      = Inr (Fin (of_int (\<Sum>m\<leftarrow>ms. k m) * 2 powi e))"
    by (simp del: sum_from.simps)
  then show ?thesis
    by (simp only: attenuation.simps m)
qed

lemma sum_list_permuted:
  fixes g :: "'a \<Rightarrow> int"
  assumes "mset ms' = mset ms"
  shows "(\<Sum>m\<leftarrow>ms'. g m) = (\<Sum>m\<leftarrow>ms. g m)"
proof -
  have "mset (map g ms') = mset (map g ms)"
    using assms by (metis mset_map)
  then show ?thesis
    by (metis sum_mset_sum_list)
qed





text \<open>The doubles nearest to 0.1, 0.2 and 0.3, and their float sums in two orders.\<close>

lemma sum_tenths_ascending:
  "round64 (0 + 3602879701896397 / 2 ^ 55) = Fin (3602879701896397 / 2 ^ 55)"
  "round64 (3602879701896397 / 2 ^ 55 + 3602879701896397 / 2 ^ 54) = Fin (5404319552844596 / 2 ^ 54)"
  "round64 (5404319552844596 / 2 ^ 54 + 5404319552844595 / 2 ^ 54) = Fin (5404319552844596 / 2 ^ 53)"
proof -
  show "round64 (0 + 3602879701896397 / 2 ^ 55) = Fin (3602879701896397 / 2 ^ 55)"
    using round64_exact [of 3602879701896397 "- 55"] by simp
  show "round64 (3602879701896397 / 2 ^ 55 + 3602879701896397 / 2 ^ 54) = Fin (5404319552844596 / 2 ^ 54)"
    using round64_binade [of "- 2" "3602879701896397 / 2 ^ 55 + 3602879701896397 / 2 ^ 54"]
    by (simp add: round_half_even_def)
  show "round64 (5404319552844596 / 2 ^ 54 + 5404319552844595 / 2 ^ 54) = Fin (5404319552844596 / 2 ^ 53)"
    using round64_binade [of "- 1" "5404319552844596 / 2 ^ 54 + 5404319552844595 / 2 ^ 54"]
    by (simp add: round_half_even_def)
qed

lemma sum_tenths_descending:
  "round64 (0 + 5404319552844595 / 2 ^ 54) = Fin (5404319552844595 / 2 ^ 54)"
  "round64 (5404319552844595 / 2 ^ 54 + 3602879701896397 / 2 ^ 54) = Fin (1 / 2)"
  "round64 (1 / 2 + 3602879701896397 / 2 ^ 55) = Fin (5404319552844595 / 2 ^ 53)"
proof -
  show "round64 (0 + 5404319552844595 / 2 ^ 54) = Fin (5404319552844595 / 2 ^ 54)"
    using round64_exact [of 5404319552844595 "- 54"] by simp
  show "round64 (5404319552844595 / 2 ^ 54 + 3602879701896397 / 2 ^ 54) = Fin (1 / 2)"
    using round64_exact [of 1 "- 1"] by simp
  show "round64 (1 / 2 + 3602879701896397 / 2 ^ 55) = Fin (5404319552844595 / 2 ^ 53)"
    using round64_binade [of "- 1" "1 / 2 + 3602879701896397 / 2 ^ 55"]
    by (simp add: round_half_even_def)
qed

lemma example_box_density:
  "attenuation (Rectangle_init (- 3) 3 (- 3) 3 1) x y = Inr (Fin (example_box x y))"
  by (simp add: Rectangle_init_def example_box_def)

lemma append_builds:
  "append ObjectCollection_init m = Inr (ObjectCollection [m])"
  by (simp add: ObjectCollection_init_def)

section \<open>Properties of the loops and of the arrays\<close>

subsection \<open>Loops\<close>

lemma for_each_append:
  "for_each (xs @ ys) body s =
     (case for_each xs body s of Inl e \<Rightarrow> Inl e | Inr s' \<Rightarrow> for_each ys body s')"
  by (induction xs arbitrary: s) (simp_all split: sum.splits)

lemma for_each_preserves:
  assumes step: "\<And>i s s'. body i s = Inr s' \<Longrightarrow> R s s'"
    and refl: "\<And>s. R s s"
    and trans: "\<And>a b c. R a b \<Longrightarrow> R b c \<Longrightarrow> R a c"
  shows "for_each xs body s = Inr s' \<Longrightarrow> R s s'"
proof (induction xs arbitrary: s)
  case Nil
  then show ?case using refl by simp
next
  case (Cons i xs)
  from Cons.prems obtain s1 where s1: "body i s = Inr s1" and rest: "for_each xs body s1 = Inr s'"
    by (auto split: sum.splits)
  from step [OF s1] Cons.IH [OF rest] show ?case by (rule trans)
qed

subsection \<open>Arrays\<close>

lemma np_axis_Inr: "np_axis n i = Inr r \<Longrightarrow> r < n"
  by (auto simp: np_axis_def split: if_splits)

lemma np_axis_nonneg: "i < n \<Longrightarrow> np_axis n (int i) = Inr i"
  by (simp add: np_axis_def)

lemma np_axis_neg: "- int n \<le> i \<Longrightarrow> i < 0 \<Longrightarrow> np_axis n i = Inr (nat (int n + i))"
  by (simp add: np_axis_def)

lemma has_shape_row: "has_shape d m n \<Longrightarrow> r < nat m \<Longrightarrow> length (d ! r) = nat n"
  by (simp add: has_shape_def list_all_length)

lemma has_shape_rows: "has_shape d m n \<Longrightarrow> length d = nat m"
  by (simp add: has_shape_def)

lemma has_shape_update:
  assumes "has_shape d m n" "r < nat m"
  shows "has_shape (d[r := (d ! r)[c := w]]) m n"
proof -
  have "length (d ! r) = nat n" using assms by (rule has_shape_row)
  then show ?thesis
    using assms by (auto simp: has_shape_def list_all_length nth_list_update)
qed

lemma np_iadd_in_range:
  assumes "has_shape d m n" "r < nat m" "c < nat n"
  shows "np_iadd d (int r) (int c) v = Inr (d[r := (d ! r)[c := d ! r ! c + v]])"
proof -
  have "length d = nat m" "length (d ! r) = nat n"
    using assms by (simp_all add: has_shape_rows has_shape_row)
  then show ?thesis
    using assms by (simp add: np_iadd_def np_axis_nonneg)
qed

lemma np_iadd_lengths:
  assumes "np_iadd d i j v = Inr d'"
  shows "length d' = length d \<and> map length d' = map length d"
proof -
  from assms obtain r c where r: "np_axis (length d) i = Inr r"
    and d': "d' = d[r := (d ! r)[c := d ! r ! c + v]]"
    by (auto simp: np_iadd_def split: sum.splits)
  have "r < length d" using r by (rule np_axis_Inr)
  then have "map length d' = map length d"
    unfolding d' by (simp add: map_update list_update_same_conv)
  then show ?thesis by (simp add: d')
qed

subsection \<open>The loops of \<^verbatim>\<open>add_object\<close>\<close>

lemma theta_data [simp]: "theta (s\<lparr>data := d\<rparr>) i = theta s i"
  by (simp add: theta_def)

lemma xi_data [simp]: "xi (s\<lparr>data := d\<rparr>) j = xi s j"
  by (simp add: xi_def)

lemma add_cell_frame: "add_cell quad obj eta i j s = Inr s' \<Longrightarrow> only_data_changed s s'"
  by (auto simp: add_cell_def only_data_changed_def dest: np_iadd_lengths split: sum.splits)

lemma only_data_changed_refl: "only_data_changed s s"
  by (simp add: only_data_changed_def)

lemma only_data_changed_trans:
  "only_data_changed a b \<Longrightarrow> only_data_changed b c \<Longrightarrow> only_data_changed a c"
  by (simp add: only_data_changed_def)

lemma add_object_frame:
  assumes "add_object quad obj eta s = Inr s'"
  shows "only_data_changed s s'"
proof -
  have row: "\<And>i s s'. for_each (py_range (xi_steps s)) (add_cell quad obj eta i) s = Inr s'
      \<Longrightarrow> only_data_changed s s'"
    by (rule for_each_preserves [where R = only_data_changed])
      (auto intro: add_cell_frame only_data_changed_refl only_data_changed_trans)
  show ?thesis
    using assms unfolding add_object_def
    by (rule for_each_preserves [where R = only_data_changed, rotated 3])
      (auto intro: row only_data_changed_refl only_data_changed_trans)
qed

lemma row_loop:
  assumes "has_shape (data s) m n" "i < nat m" "k \<le> nat n"
  shows "\<exists>d. for_each (map int [0..<k]) (add_cell quad obj eta (int i)) s = Inr (s\<lparr>data := d\<rparr>) \<and>
     has_shape d m n \<and>
     (\<forall>r<nat m. \<forall>c<nat n. d ! r ! c = data s ! r ! c +
        (if r = i \<and> c < k
         then project_attenuation quad obj (theta s (int i)) (xi s (int c)) eta else 0))"
  using assms(3)
proof (induction k)
  case 0
  show ?case
    by (rule exI [where x = "data s"]) (simp add: assms(1))
next
  case (Suc k)
  then have "k \<le> nat n" and k: "k < nat n" by simp_all
  from Suc.IH [OF this(1)] obtain d1 where
    run: "for_each (map int [0..<k]) (add_cell quad obj eta (int i)) s = Inr (s\<lparr>data := d1\<rparr>)"
    and shape: "has_shape d1 m n"
    and cells: "\<forall>r<nat m. \<forall>c<nat n. d1 ! r ! c = data s ! r ! c +
        (if r = i \<and> c < k
         then project_attenuation quad obj (theta s (int i)) (xi s (int c)) eta else 0)"
    by blast
  define v where "v = project_attenuation quad obj (theta s (int i)) (xi s (int k)) eta"
  define d2 where "d2 = d1[i := (d1 ! i)[k := d1 ! i ! k + v]]"
  have step: "add_cell quad obj eta (int i) (int k) (s\<lparr>data := d1\<rparr>) = Inr (s\<lparr>data := d2\<rparr>)"
    using np_iadd_in_range [OF shape assms(2) k]
    by (simp add: add_cell_def v_def d2_def)
  have shape2: "has_shape d2 m n"
    unfolding d2_def using shape assms(2) by (rule has_shape_update)
  have len: "length d1 = nat m" "\<And>r. r < nat m \<Longrightarrow> length (d1 ! r) = nat n"
    using shape by (simp_all add: has_shape_rows has_shape_row)
  have cells2: "d2 ! r ! c = data s ! r ! c +
        (if r = i \<and> c < Suc k
         then project_attenuation quad obj (theta s (int i)) (xi s (int c)) eta else 0)"
    if "r < nat m" "c < nat n" for r c
  proof (cases "r = i")
    case True
    show ?thesis
    proof (cases "c = k")
      case True
      with \<open>r = i\<close> that len cells show ?thesis
        by (simp add: d2_def v_def)
    next
      case False
      with \<open>r = i\<close> that len cells show ?thesis
        by (simp add: d2_def less_Suc_eq)
    qed
  next
    case False
    with that len cells show ?thesis
      by (simp add: d2_def)
  qed
  have "for_each (map int [0..<Suc k]) (add_cell quad obj eta (int i)) s = Inr (s\<lparr>data := d2\<rparr>)"
    by (simp add: for_each_append run step)
  with shape2 cells2 show ?case by blast
qed

lemma grid_loop:
  assumes "has_shape (data s) m (xi_steps s)" "k \<le> nat m"
  shows "\<exists>d. for_each (map int [0..<k])
         (\<lambda>theta_idx s. for_each (py_range (xi_steps s)) (add_cell quad obj eta theta_idx) s) s
       = Inr (s\<lparr>data := d\<rparr>) \<and>
     has_shape d m (xi_steps s) \<and>
     (\<forall>r<nat m. \<forall>c<nat (xi_steps s). d ! r ! c = data s ! r ! c +
        (if r < k
         then project_attenuation quad obj (theta s (int r)) (xi s (int c)) eta else 0))"
  using assms(2)
proof (induction k)
  case 0
  show ?case
    by (rule exI [where x = "data s"]) (simp add: assms(1))
next
  case (Suc k)
  let ?body = "\<lambda>theta_idx s. for_each (py_range (xi_steps s)) (add_cell quad obj eta theta_idx) s"
  let ?n = "xi_steps s"
  from Suc.prems have "k \<le> nat m" and k: "k < nat m" by simp_all
  from Suc.IH [OF this(1)] obtain d1 where
    run: "for_each (map int [0..<k]) ?body s = Inr (s\<lparr>data := d1\<rparr>)"
    and shape: "has_shape d1 m ?n"
    and cells: "\<forall>r<nat m. \<forall>c<nat ?n. d1 ! r ! c = data s ! r ! c +
        (if r < k
         then project_attenuation quad obj (theta s (int r)) (xi s (int c)) eta else 0)"
    by blast
  have "has_shape (data (s\<lparr>data := d1\<rparr>)) m ?n" using shape by simp
  from row_loop [OF this k order_refl, of quad obj eta] obtain d2 where
    row: "for_each (map int [0..<nat ?n]) (add_cell quad obj eta (int k)) (s\<lparr>data := d1\<rparr>)
            = Inr (s\<lparr>data := d2\<rparr>)"
    and shape2: "has_shape d2 m ?n"
    and cells2: "\<forall>r<nat m. \<forall>c<nat ?n. d2 ! r ! c = d1 ! r ! c +
        (if r = k \<and> c < nat ?n
         then project_attenuation quad obj (theta s (int k)) (xi s (int c)) eta else 0)"
    by auto
  have "for_each (map int [0..<Suc k]) ?body s = Inr (s\<lparr>data := d2\<rparr>)"
    by (simp add: for_each_append run [unfolded py_range_def] py_range_def row)
  moreover have "\<forall>r<nat m. \<forall>c<nat ?n. d2 ! r ! c = data s ! r ! c +
        (if r < Suc k
         then project_attenuation quad obj (theta s (int r)) (xi s (int c)) eta else 0)"
    using cells cells2 by (auto simp: less_Suc_eq)
  ultimately show ?case using shape2 by blast
qed

lemma add_object_cells:
  assumes "has_shape (data s) (theta_steps s) (xi_steps s)"
  shows "\<exists>d. add_object quad obj eta s = Inr (s\<lparr>data := d\<rparr>) \<and>
     has_shape d (theta_steps s) (xi_steps s) \<and>
     (\<forall>r<nat (theta_steps s). \<forall>c<nat (xi_steps s). d ! r ! c = data s ! r ! c +
        project_attenuation quad obj (theta s (int r)) (xi s (int c)) eta)"
  using grid_loop [OF assms order_refl, of quad obj eta]
  by (simp add: add_object_def py_range_def)

subsection \<open>The constructor\<close>

lemma Projection_init_positive:
  assumes "0 < ts" "0 < xs"
  shows "Projection_init tr ts xr xs =
     Inr \<lparr>theta_min = min (fst tr) (snd tr), theta_max = max (fst tr) (snd tr),
          theta_steps = ts,
          theta_step_size = (max (fst tr) (snd tr) - min (fst tr) (snd tr)) / real_of_int ts,
          xi_min = min (fst xr) (snd xr), xi_max = max (fst xr) (snd xr),
          xi_steps = xs,
          xi_step_size = (max (fst xr) (snd xr) - min (fst xr) (snd xr)) / real_of_int xs,
          data = replicate (nat ts) (replicate (nat xs) 0)\<rparr>"
  using assms by (simp add: Projection_init_def np_zeros_def Let_def)

lemma Projection_init_Inr_positive:
  "Projection_init tr ts xr xs = Inr p \<Longrightarrow> 0 < ts \<and> 0 < xs"
  by (auto simp: Projection_init_def np_zeros_def Let_def split: if_splits)

lemma has_shape_zeros: "has_shape (replicate (nat m) (replicate (nat n) 0)) m n"
  by (simp add: has_shape_def list_all_length)

lemma Projection_init_grid_inv:
  assumes "Projection_init tr ts xr xs = Inr p"
  shows "grid_inv p \<and> theta_steps p = ts \<and> xi_steps p = xs
     \<and> (\<forall>i<nat ts. \<forall>j<nat xs. data p ! i ! j = 0)"
proof -
  have pos: "0 < ts" "0 < xs"
    using assms by (simp_all add: Projection_init_Inr_positive)
  show ?thesis
    using assms unfolding Projection_init_positive [OF pos]
    by (auto simp: grid_inv_def has_shape_zeros pos)
qed

lemma grid_inv_data:
  "grid_inv s \<Longrightarrow> has_shape d (theta_steps s) (xi_steps s) \<Longrightarrow> grid_inv (s\<lparr>data := d\<rparr>)"
  by (simp add: grid_inv_def)

lemma example_grid_constructed: "Projection_init (0, 1) 1 (0, 2) 1 = Inr example_grid"
  by (simp add: Projection_init_def np_zeros_def example_grid_def)

lemma example_grid_inv: "grid_inv example_grid"
  by (simp add: grid_inv_def has_shape_def example_grid_def)

lemma example_add_object:
  "add_object midpoint_rule example_box (- 2, 2) (example_grid\<lparr>data := [[v]]\<rparr>)
     = Inr (example_grid\<lparr>data := [[v + 4]]\<rparr>)"
  by (simp add: add_object_def py_range_def add_cell_def np_iadd_def np_axis_def
      project_attenuation_def integrand_eta_def midpoint_rule_def theta_def xi_def
      example_box_def Rectangle_init_def example_grid_def)

subsection \<open>Reading a cell\<close>




subsection \<open>The reconstruction\<close>

lemma back_project_raises: "0 < xi_steps self \<Longrightarrow> back_project self = Inl NameError"
proof -
  assume "0 < xi_steps self"
  then obtain k where k: "nat (xi_steps self) = Suc k"
    by (cases "nat (xi_steps self)") simp_all
  have "[0..<Suc k] = 0 # [Suc 0..<Suc k]"
    by (simp add: upt_conv_Cons)
  then show ?thesis
    using \<open>0 < xi_steps self\<close> by (simp add: back_project_def np_zeros_def py_range_def k)
qed

subsection \<open>The column of a lookup\<close>


















lemma constructed_grid_lookup:
  assumes "Projection_init tr ts xr xs = Inr p" "fst xr \<noteq> snd xr"
  shows "0 < xi_step_size p \<and> 0 < xi_steps p \<and>
     has_shape (data p) (theta_steps p) (xi_steps p) \<and>
     xi_step_size p \<le> (xi_max p - xi_min p) / real_of_int (xi_steps p) * (1 + 2 powi (- 51))"
proof -
  have pos: "0 < ts" "0 < xs"
    using assms(1) by (simp_all add: Projection_init_Inr_positive)
  have inv: "grid_inv p"
    using Projection_init_grid_inv [OF assms(1)] by simp
  have p: "xi_min p = min (fst xr) (snd xr)" "xi_max p = max (fst xr) (snd xr)" "xi_steps p = xs"
    using assms(1) unfolding Projection_init_positive [OF pos] by auto
  have step: "xi_step_size p = (xi_max p - xi_min p) / real_of_int (xi_steps p)"
    using inv by (simp add: grid_inv_def)
  have D: "0 < xi_max p - xi_min p"
    using assms(2) by (simp add: p)
  then have s: "0 < xi_step_size p"
    using pos by (simp add: step p)
  have "xi_step_size p * 1 \<le> xi_step_size p * (1 + 2 powi (- 51))"
    using s by (intro mult_left_mono) simp_all
  then show ?thesis
    using s inv step by (simp add: grid_inv_def)
qed

section \<open>The claims\<close>

text \<open>
  C1. \<open>back_project\<close> should return the filled square array of side \<open>xi_steps\<close>,
  or fail with a computation error. On a grid built by the constructor and populated by
  one \<open>add_object\<close> the body, read with its loop headers completed, raises
  \<open>NameError\<close> in the first iteration; it has no \<open>return\<close> statement at all. The
  code does not do what the claim and its own docstring say.
\<close>

theorem back_project_on_populated_grid:
  "Projection_init (0, 1) 1 (0, 2) 1 = Inr example_grid \<and>
   add_object midpoint_rule example_box (- 2, 2) example_grid
     = Inr (example_grid\<lparr>data := [[4]]\<rparr>) \<and>
   back_project (example_grid\<lparr>data := [[4]]\<rparr>) = Inl NameError"
proof -
  have "back_project (example_grid\<lparr>data := [[4]]\<rparr>) = Inl NameError"
    by (rule back_project_raises) (simp add: example_grid_def)
  moreover have "example_grid\<lparr>data := [[0]]\<rparr> = example_grid"
    by (simp add: example_grid_def)
  ultimately show ?thesis
    using example_add_object [of 0] by (simp add: example_grid_constructed)
qed




text \<open>
  C3, as amended. \<open>project_attenuation\<close> hands the bounds of \<open>eta_range\<close> to the
  quadrature in the order given. With a quadrature that changes sign when its bounds are
  exchanged, as the library routine does, a reversed range \<open>(a, b)\<close> with \<open>a > b\<close>
  gives the negation of the value for the range ordered by min and max.
\<close>

theorem reversed_eta_range_negates:
  assumes "\<forall>f u v. quad f v u = - quad f u v" and "b < a"
  shows "project_attenuation quad att theta' xi' (a, b) =
     - project_attenuation quad att theta' xi' (min a b, max a b)"
proof -
  have "quad (integrand_eta att theta' xi') a b = - quad (integrand_eta att theta' xi') b a"
    using assms(1) by blast
  moreover have "min a b = b" "max a b = a"
    using assms(2) by simp_all
  ultimately show ?thesis
    by (simp add: project_attenuation_def)
qed

theorem reversed_eta_range_negates_witness:
  "(\<forall>f u v. midpoint_rule f v u = - midpoint_rule f u v) \<and> (- 2::real) < 2 \<and>
   project_attenuation midpoint_rule example_box 0 0 (2, - 2) = - 4 \<and>
   project_attenuation midpoint_rule example_box 0 0 (min 2 (- 2), max 2 (- 2)) = 4"
proof -
  have anti: "\<forall>f u v. midpoint_rule f v u = - midpoint_rule f u v"
    by (simp add: midpoint_rule_def add.commute minus_mult_left)
  have "project_attenuation midpoint_rule example_box 0 0 (min 2 (- 2), max 2 (- 2)) = 4"
    by (simp add: project_attenuation_def integrand_eta_def midpoint_rule_def
        example_box_def Rectangle_init_def)
  moreover have "project_attenuation midpoint_rule example_box 0 0 (2, - 2) = - 4"
    using reversed_eta_range_negates [OF anti, of "- 2" 2 example_box 0 0]
    by (simp only: calculation)
  moreover have "(- 2::real) < 2"
    by simp
  ultimately show ?thesis
    using anti by (intro conjI)
qed

text \<open>
  C3 as stated fails: for a box of density 1 that covers the line, the range
  \<open>(2, -2)\<close> gives \<open>-4\<close> and the ordered range \<open>(-2, 2)\<close> gives \<open>4\<close>.
\<close>

theorem reversed_eta_range_counterexample:
  "project_attenuation midpoint_rule example_box 0 0 (2, - 2) \<noteq>
   project_attenuation midpoint_rule example_box 0 0 (min 2 (- 2), max 2 (- 2))"
  by (simp add: project_attenuation_def integrand_eta_def midpoint_rule_def
      example_box_def Rectangle_init_def)







text \<open>
  C6. On every grid that satisfies the invariant of the constructor, \<open>add_object\<close>
  returns, and every cell \<open>(i, j)\<close> of the result is the old cell plus the line
  integral of the object at \<open>(theta i, xi j)\<close>. Starting from the grid that the
  constructor returned, a second call with the same object and range gives every cell
  twice its value after the first call.
\<close>

theorem add_object_accumulates:
  assumes "grid_inv self"
  shows "\<exists>self1. add_object quad obj eta self = Inr self1 \<and> grid_inv self1 \<and>
     (\<forall>i<nat (theta_steps self). \<forall>j<nat (xi_steps self).
        data self1 ! i ! j = data self ! i ! j +
          project_attenuation quad obj (theta self (int i)) (xi self (int j)) eta) \<and>
     (Projection_init tr ts xr xs = Inr self \<longrightarrow>
        (\<exists>self2. add_object quad obj eta self1 = Inr self2 \<and>
           (\<forall>i<nat (theta_steps self). \<forall>j<nat (xi_steps self).
              data self2 ! i ! j = 2 * data self1 ! i ! j)))"
proof -
  let ?L = "\<lambda>i j. project_attenuation quad obj (theta self (int i)) (xi self (int j)) eta"
  have shape: "has_shape (data self) (theta_steps self) (xi_steps self)"
    using assms by (simp add: grid_inv_def)
  from add_object_cells [OF shape, of quad obj eta] obtain d1 where
    run1: "add_object quad obj eta self = Inr (self\<lparr>data := d1\<rparr>)"
    and shape1: "has_shape d1 (theta_steps self) (xi_steps self)"
    and cells1: "\<forall>r<nat (theta_steps self). \<forall>c<nat (xi_steps self).
        d1 ! r ! c = data self ! r ! c + ?L r c"
    by blast
  have inv1: "grid_inv (self\<lparr>data := d1\<rparr>)"
    using assms shape1 by (rule grid_inv_data)
  have "has_shape (data (self\<lparr>data := d1\<rparr>)) (theta_steps (self\<lparr>data := d1\<rparr>))
      (xi_steps (self\<lparr>data := d1\<rparr>))"
    using shape1 by simp
  from add_object_cells [OF this, of quad obj eta] obtain d2 where
    run2: "add_object quad obj eta (self\<lparr>data := d1\<rparr>) = Inr (self\<lparr>data := d2\<rparr>)"
    and cells2: "\<forall>r<nat (theta_steps self). \<forall>c<nat (xi_steps self).
        d2 ! r ! c = d1 ! r ! c + ?L r c"
    by auto
  have twice: "\<forall>i<nat (theta_steps self). \<forall>j<nat (xi_steps self). d2 ! i ! j = 2 * d1 ! i ! j"
    if "Projection_init tr ts xr xs = Inr self"
  proof -
    have "\<forall>i<nat (theta_steps self). \<forall>j<nat (xi_steps self). data self ! i ! j = 0"
      using Projection_init_grid_inv [OF that] by simp
    then show ?thesis
      using cells1 cells2 by simp
  qed
  show ?thesis
  proof (rule exI [where x = "self\<lparr>data := d1\<rparr>"], intro conjI impI)
    show "add_object quad obj eta self = Inr (self\<lparr>data := d1\<rparr>)" by (rule run1)
    show "grid_inv (self\<lparr>data := d1\<rparr>)" by (rule inv1)
    show "\<forall>i<nat (theta_steps self). \<forall>j<nat (xi_steps self).
        data (self\<lparr>data := d1\<rparr>) ! i ! j = data self ! i ! j + ?L i j"
      using cells1 by simp
  next
    assume "Projection_init tr ts xr xs = Inr self"
    from twice [OF this] run2
    show "\<exists>self2. add_object quad obj eta (self\<lparr>data := d1\<rparr>) = Inr self2 \<and>
           (\<forall>i<nat (theta_steps self). \<forall>j<nat (xi_steps self).
              data self2 ! i ! j = 2 * data (self\<lparr>data := d1\<rparr>) ! i ! j)"
      by simp
  qed
qed

theorem add_object_accumulates_witness:
  "grid_inv example_grid \<and> Projection_init (0, 1) 1 (0, 2) 1 = Inr example_grid \<and>
   (\<exists>self1. add_object midpoint_rule example_box (- 2, 2) example_grid = Inr self1 \<and>
      data self1 ! 0 ! 0 = 4 \<and>
      (\<exists>self2. add_object midpoint_rule example_box (- 2, 2) self1 = Inr self2 \<and>
         data self2 ! 0 ! 0 = 8))"
proof -
  have run: "add_object midpoint_rule example_box (- 2, 2) example_grid
     = Inr (example_grid\<lparr>data := [[4]]\<rparr>)"
    using example_add_object [of 0] by (simp add: example_grid_def)
  have sz: "nat (theta_steps example_grid) = 1" "nat (xi_steps example_grid) = 1"
    by (simp_all add: example_grid_def)
  show ?thesis
    using add_object_accumulates [OF example_grid_inv, of midpoint_rule example_box "(- 2, 2)"
        "(0, 1)" 1 "(0, 2)" 1] example_grid_inv example_grid_constructed
    by (auto simp: run sz)
qed

text \<open>
  C7, as amended. The constructor stores the bounds ordered by min and max, the density
  is the factor on the closed box and 0 elsewhere, and for a factor other than 0 the
  density equals the factor exactly on the closed box.
\<close>

theorem Rectangle_density:
  "Rectangle_init a b c d f = Rectangle (min a b) (max a b) (min c d) (max c d) f \<and>
   min a b \<le> max a b \<and> min c d \<le> max c d \<and>
   attenuation (Rectangle_init a b c d f) x y =
     Inr (Fin (if min a b \<le> x \<and> x \<le> max a b \<and> min c d \<le> y \<and> y \<le> max c d then f else 0)) \<and>
   (f \<noteq> 0 \<longrightarrow>
      (attenuation (Rectangle_init a b c d f) x y = Inr (Fin f) \<longleftrightarrow>
         min a b \<le> x \<and> x \<le> max a b \<and> min c d \<le> y \<and> y \<le> max c d))"
  by (auto simp add: Rectangle_init_def)

theorem Rectangle_density_witness:
  "(1::real) \<noteq> 0 \<and>
   attenuation (Rectangle_init 0 (- 1) 0 (- 1) 1) (- 1/2) (- 1/2) = Inr (Fin 1) \<and>
   attenuation (Rectangle_init 0 (- 1) 0 (- 1) 1) (1/2) (1/2) = Inr (Fin 0)"
  using Rectangle_density [of 0 "- 1" 0 "- 1" 1 "- 1/2" "- 1/2"]
    Rectangle_density [of 0 "- 1" 0 "- 1" 1 "1/2" "1/2"]
  by simp

text \<open>
  C7 as stated fails for the factor 0: outside the box the density is 0, which is the
  factor, so "equal to the factor" does not imply "inside the box".
\<close>

theorem Rectangle_density_counterexample:
  "\<not> (attenuation (Rectangle_init 0 1 0 1 0) 2 2 = Inr (Fin 0) \<longleftrightarrow>
        min 0 1 \<le> (2::real) \<and> (2::real) \<le> max 0 1 \<and> min 0 1 \<le> (2::real) \<and> (2::real) \<le> max 0 1)"
  by (simp add: Rectangle_init_def)

text \<open>
  C8, as amended. The density of a collection is the float sum of the densities of its
  members, added from left to right starting from 0, each addition rounded; the first
  member that raises ends it. When the member densities are integer multiples
  \<open>k * 2 powi e\<close> of one power of two, with \<open>e\<close> from \<open>-1074\<close> to \<open>970\<close> and
  the absolute values of the \<open>k\<close> adding up to at most \<open>2 ^ 53\<close>, no addition
  rounds: the density is the exact sum, and a collection holding the same members in
  another order has the same density.
\<close>

theorem collection_density_sum:
  "attenuation (ObjectCollection ms) x y = sum_from (Fin 0) (map (\<lambda>m. attenuation m x y) ms) \<and>
   ((\<forall>m\<in>set ms. attenuation m x y = Inr (Fin (of_int (k m) * 2 powi e))) \<and>
    - 1074 \<le> e \<and> e \<le> 970 \<and> (\<Sum>m\<leftarrow>ms. \<bar>k m\<bar>) \<le> 2 ^ 53 \<longrightarrow>
      attenuation (ObjectCollection ms) x y = Inr (Fin (of_int (\<Sum>m\<leftarrow>ms. k m) * 2 powi e)) \<and>
      (mset ms' = mset ms \<longrightarrow>
         attenuation (ObjectCollection ms') x y = attenuation (ObjectCollection ms) x y))"
proof (rule conjI)
  show "attenuation (ObjectCollection ms) x y = sum_from (Fin 0) (map (\<lambda>m. attenuation m x y) ms)"
    by simp
next
  show "(\<forall>m\<in>set ms. attenuation m x y = Inr (Fin (of_int (k m) * 2 powi e))) \<and>
    - 1074 \<le> e \<and> e \<le> 970 \<and> (\<Sum>m\<leftarrow>ms. \<bar>k m\<bar>) \<le> 2 ^ 53 \<longrightarrow>
      attenuation (ObjectCollection ms) x y = Inr (Fin (of_int (\<Sum>m\<leftarrow>ms. k m) * 2 powi e)) \<and>
      (mset ms' = mset ms \<longrightarrow>
         attenuation (ObjectCollection ms') x y = attenuation (ObjectCollection ms) x y)"
  proof (rule impI)
    assume h: "(\<forall>m\<in>set ms. attenuation m x y = Inr (Fin (of_int (k m) * 2 powi e))) \<and>
      - 1074 \<le> e \<and> e \<le> 970 \<and> (\<Sum>m\<leftarrow>ms. \<bar>k m\<bar>) \<le> 2 ^ 53"
    then have vals: "\<forall>m\<in>set ms. attenuation m x y = Inr (Fin (of_int (k m) * 2 powi e))"
      and e: "- 1074 \<le> e" "e \<le> 970" and small: "(\<Sum>m\<leftarrow>ms. \<bar>k m\<bar>) \<le> 2 ^ 53"
      by blast+
    have own: "attenuation (ObjectCollection ms) x y = Inr (Fin (of_int (\<Sum>m\<leftarrow>ms. k m) * 2 powi e))"
      using vals e small by (rule collection_exact)
    have other: "attenuation (ObjectCollection ms') x y = attenuation (ObjectCollection ms) x y"
      if p: "mset ms' = mset ms"
    proof -
      have "set ms' = set ms" using p by (metis set_mset_mset)
      then have vals': "\<forall>m\<in>set ms'. attenuation m x y = Inr (Fin (of_int (k m) * 2 powi e))"
        using vals by blast
      have abs: "(\<Sum>m\<leftarrow>ms'. \<bar>k m\<bar>) = (\<Sum>m\<leftarrow>ms. \<bar>k m\<bar>)"
        using p by (rule sum_list_permuted)
      have sum: "(\<Sum>m\<leftarrow>ms'. k m) = (\<Sum>m\<leftarrow>ms. k m)"
        using p by (rule sum_list_permuted)
      have small': "(\<Sum>m\<leftarrow>ms'. \<bar>k m\<bar>) \<le> 2 ^ 53"
        using small by (simp only: abs)
      have "attenuation (ObjectCollection ms') x y = Inr (Fin (of_int (\<Sum>m\<leftarrow>ms'. k m) * 2 powi e))"
        using vals' e small' by (rule collection_exact)
      then show ?thesis
        by (simp only: sum own)
    qed
    show "attenuation (ObjectCollection ms) x y = Inr (Fin (of_int (\<Sum>m\<leftarrow>ms. k m) * 2 powi e)) \<and>
      (mset ms' = mset ms \<longrightarrow>
         attenuation (ObjectCollection ms') x y = attenuation (ObjectCollection ms) x y)"
      using own other by blast
  qed
qed

theorem collection_density_sum_witness:
  "attenuation (Rectangle_init 0 4 0 4 1) 1 1 = Inr (Fin (of_int 2 * 2 powi (- 1))) \<and>
   attenuation (Rectangle_init 0 4 0 4 (1 / 2)) 1 1 = Inr (Fin (of_int 1 * 2 powi (- 1))) \<and>
   \<bar>2::int\<bar> + \<bar>1\<bar> \<le> 2 ^ 53 \<and>
   mset [Rectangle_init 0 4 0 4 (1 / 2), Rectangle_init 0 4 0 4 1]
     = mset [Rectangle_init 0 4 0 4 1, Rectangle_init 0 4 0 4 (1 / 2)] \<and>
   attenuation (ObjectCollection [Rectangle_init 0 4 0 4 1, Rectangle_init 0 4 0 4 (1 / 2)]) 1 1
     = Inr (Fin (3 / 2)) \<and>
   attenuation (ObjectCollection [Rectangle_init 0 4 0 4 (1 / 2), Rectangle_init 0 4 0 4 1]) 1 1
     = Inr (Fin (3 / 2))"
proof -
  let ?ms = "[Rectangle_init 0 4 0 4 1, Rectangle_init 0 4 0 4 (1 / 2)]"
  let ?ms' = "[Rectangle_init 0 4 0 4 (1 / 2), Rectangle_init 0 4 0 4 1]"
  let ?k = "\<lambda>m. if m = Rectangle_init 0 4 0 4 1 then 2 else (1::int)"
  have vals: "\<forall>m\<in>set ?ms. attenuation m 1 1 = Inr (Fin (of_int (?k m) * 2 powi (- 1)))"
    by (simp add: Rectangle_init_def)
  have perm: "mset ?ms' = mset ?ms"
    by simp
  have small: "(\<Sum>m\<leftarrow>?ms. \<bar>?k m\<bar>) \<le> 2 ^ 53"
    by (simp add: Rectangle_init_def)
  have total: "(\<Sum>m\<leftarrow>?ms. ?k m) = 3"
    by (simp add: Rectangle_init_def)
  have "attenuation (ObjectCollection ?ms) 1 1 = Inr (Fin (3 / 2)) \<and>
      attenuation (ObjectCollection ?ms') 1 1 = attenuation (ObjectCollection ?ms) 1 1"
    using collection_density_sum [where ms = ?ms and ms' = ?ms' and k = ?k and e = "- 1"
        and x = 1 and y = 1] vals perm small
    by (simp only: total) simp
  then show ?thesis
    using perm by (simp add: Rectangle_init_def)
qed

text \<open>
  C8 as stated fails: three rectangles whose factors are the doubles nearest to 0.1, 0.2
  and 0.3 give, at a point inside all of them, the double above 0.6 in this order and
  the double nearest to 0.6 in the reverse order.
\<close>

theorem collection_order_counterexample:
  "mset [Rectangle_init 0 1 0 1 (5404319552844595 / 2 ^ 54),
         Rectangle_init 0 1 0 1 (3602879701896397 / 2 ^ 54),
         Rectangle_init 0 1 0 1 (3602879701896397 / 2 ^ 55)]
     = mset [Rectangle_init 0 1 0 1 (3602879701896397 / 2 ^ 55),
             Rectangle_init 0 1 0 1 (3602879701896397 / 2 ^ 54),
             Rectangle_init 0 1 0 1 (5404319552844595 / 2 ^ 54)] \<and>
   attenuation (ObjectCollection
       [Rectangle_init 0 1 0 1 (3602879701896397 / 2 ^ 55),
        Rectangle_init 0 1 0 1 (3602879701896397 / 2 ^ 54),
        Rectangle_init 0 1 0 1 (5404319552844595 / 2 ^ 54)]) (1 / 2) (1 / 2)
     = Inr (Fin (5404319552844596 / 2 ^ 53)) \<and>
   attenuation (ObjectCollection
       [Rectangle_init 0 1 0 1 (5404319552844595 / 2 ^ 54),
        Rectangle_init 0 1 0 1 (3602879701896397 / 2 ^ 54),
        Rectangle_init 0 1 0 1 (3602879701896397 / 2 ^ 55)]) (1 / 2) (1 / 2)
     = Inr (Fin (5404319552844595 / 2 ^ 53))"
proof -
  have inside: "attenuation (Rectangle_init 0 1 0 1 f) (1 / 2) (1 / 2) = Inr (Fin f)" for f
    by (simp add: Rectangle_init_def)
  have "attenuation (ObjectCollection
       [Rectangle_init 0 1 0 1 (3602879701896397 / 2 ^ 55),
        Rectangle_init 0 1 0 1 (3602879701896397 / 2 ^ 54),
        Rectangle_init 0 1 0 1 (5404319552844595 / 2 ^ 54)]) (1 / 2) (1 / 2)
     = Inr (Fin (5404319552844596 / 2 ^ 53))"
    by (simp only: attenuation.simps(3) list.map inside sum_from.simps sum.case
        float_add.simps sum_tenths_ascending)
  moreover have "attenuation (ObjectCollection
       [Rectangle_init 0 1 0 1 (5404319552844595 / 2 ^ 54),
        Rectangle_init 0 1 0 1 (3602879701896397 / 2 ^ 54),
        Rectangle_init 0 1 0 1 (3602879701896397 / 2 ^ 55)]) (1 / 2) (1 / 2)
     = Inr (Fin (5404319552844595 / 2 ^ 53))"
    by (simp only: attenuation.simps(3) list.map inside sum_from.simps sum.case
        float_add.simps sum_tenths_descending)
  moreover have "mset [Rectangle_init 0 1 0 1 (5404319552844595 / 2 ^ 54),
         Rectangle_init 0 1 0 1 (3602879701896397 / 2 ^ 54),
         Rectangle_init 0 1 0 1 (3602879701896397 / 2 ^ 55)]
     = mset [Rectangle_init 0 1 0 1 (3602879701896397 / 2 ^ 55),
             Rectangle_init 0 1 0 1 (3602879701896397 / 2 ^ 54),
             Rectangle_init 0 1 0 1 (5404319552844595 / 2 ^ 54)]"
    by (simp add: add.commute)
  ultimately show ?thesis by (intro conjI)
qed

text \<open>
  C9. Whenever \<open>add_object\<close> returns, the eight grid parameters, the number of rows
  of \<open>data\<close> and the length of every row are those of the grid it was called on, for
  every object and range; and on a grid that satisfies the invariant of the constructor
  it does return, with the invariant kept.
\<close>

theorem add_object_only_data:
  "(add_object quad obj eta self = Inr self' \<longrightarrow>
      theta_min self' = theta_min self \<and> theta_max self' = theta_max self \<and>
      theta_steps self' = theta_steps self \<and> theta_step_size self' = theta_step_size self \<and>
      xi_min self' = xi_min self \<and> xi_max self' = xi_max self \<and>
      xi_steps self' = xi_steps self \<and> xi_step_size self' = xi_step_size self \<and>
      length (data self') = length (data self) \<and>
      map length (data self') = map length (data self)) \<and>
   (grid_inv self \<longrightarrow> (\<exists>s. add_object quad obj eta self = Inr s \<and> grid_inv s))"
proof (rule conjI; rule impI)
  assume "add_object quad obj eta self = Inr self'"
  then have "only_data_changed self self'" by (rule add_object_frame)
  then show "theta_min self' = theta_min self \<and> theta_max self' = theta_max self \<and>
      theta_steps self' = theta_steps self \<and> theta_step_size self' = theta_step_size self \<and>
      xi_min self' = xi_min self \<and> xi_max self' = xi_max self \<and>
      xi_steps self' = xi_steps self \<and> xi_step_size self' = xi_step_size self \<and>
      length (data self') = length (data self) \<and>
      map length (data self') = map length (data self)"
    by (simp add: only_data_changed_def)
next
  assume inv: "grid_inv self"
  then have "has_shape (data self) (theta_steps self) (xi_steps self)"
    by (simp add: grid_inv_def)
  from add_object_cells [OF this, of quad obj eta] obtain d where
    "add_object quad obj eta self = Inr (self\<lparr>data := d\<rparr>)"
    "has_shape d (theta_steps self) (xi_steps self)"
    by blast
  then show "\<exists>s. add_object quad obj eta self = Inr s \<and> grid_inv s"
    using inv grid_inv_data by blast
qed

theorem add_object_only_data_witness:
  "add_object midpoint_rule example_box (- 2, 2) example_grid
     = Inr (example_grid\<lparr>data := [[4]]\<rparr>) \<and>
   grid_inv example_grid \<and>
   xi_step_size (example_grid\<lparr>data := [[4]]\<rparr>) = xi_step_size example_grid \<and>
   map length (data (example_grid\<lparr>data := [[4]]\<rparr>)) = map length (data example_grid)"
proof -
  have run: "add_object midpoint_rule example_box (- 2, 2) example_grid
     = Inr (example_grid\<lparr>data := [[4]]\<rparr>)"
    using example_add_object [of 0] by (simp add: example_grid_def)
  have d: "data example_grid = [[0]]"
    by (simp add: example_grid_def)
  show ?thesis
    using add_object_only_data [of midpoint_rule example_box "(- 2, 2)" example_grid
        "example_grid\<lparr>data := [[4]]\<rparr>"] run example_grid_inv
    by (simp add: d)
qed



end
